theory Spec2Isabelle
  imports Main "HOL-Library.Sublist"
begin

section \<open>Data model\<close>

text \<open>
  A decoded JSON document. An object is the association list of its members, each key
  once, as in the decoded dict. A number is kept as an integer.
\<close>

datatype json =
    JNull
  | JBool bool
  | JNumber int
  | JString string
  | JArray "json list"
  | JObject "(string \<times> json) list"

text \<open>
  The two named tuples of \<^verbatim>\<open>fork_queue.py\<close>. A field holds the value the tuple was
  built from, whatever it is: a string of the command line, a decoded member of a
  response.
\<close>

datatype Repository = Repository (owner: json) (name: json)

datatype Branch = Branch (name: json) (commit: json)

text \<open>
  A commit of the local repository is identified by its hash: the library compares two
  commit objects by their hash, so the hash stands for the object.
\<close>

type_synonym sha = string

text \<open>
  The exceptions a run can meet. \<open>BadObject\<close> is the class the program catches around
  the lookup of a branch commit. \<open>BadName\<close> and \<open>ValueError\<close> are what the repository
  object raises for a revision that does not resolve; neither is a \<open>BadObject\<close>.
  \<open>InvalidGitRepositoryError\<close> is raised when the working directory holds no repository.
  \<open>ConnectionError\<close> and \<open>ValueError\<close> are what \<^verbatim>\<open>requests.get(...).json()\<close> raises
  when the request fails or the body is not JSON; \<open>KeyError\<close> and \<open>TypeError\<close> come from
  reading a decoded document and from hashing a value.
\<close>

datatype error =
    BadObject | BadName | InvalidGitRepositoryError | ConnectionError | ValueError | KeyError
  | TypeError

text \<open>
  \<^verbatim>\<open>'%s' % v\<close> for a value \<open>v\<close>: Python's \<^verbatim>\<open>str\<close>, which gives a string back as it is.
  The program is modelled for any such function, passed as \<open>fmt\<close>.
\<close>

type_synonym formatter = "json \<Rightarrow> string"

section \<open>The local repository\<close>

text \<open>
  The repository object of the version-control library, as far as the program uses it.
  \<open>objects\<close> are the stored commits with the hashes of their parents. \<open>repo_commit\<close> is
  \<^verbatim>\<open>local_repo.commit(x)\<close>: the commit the library resolves the revision \<open>x\<close> to in this
  repository, or the exception the call raises. It is taken as the library gives it,
  for the value the program passes.
\<close>

record local_repo =
  objects :: "(sha \<times> sha list) list"
  repo_commit :: "json \<Rightarrow> error + sha"

definition parents_of :: "local_repo \<Rightarrow> sha \<Rightarrow> sha list" where
  "parents_of r c = (case map_of (objects r) c of None \<Rightarrow> [] | Some ps \<Rightarrow> ps)"

definition has_commit :: "local_repo \<Rightarrow> sha \<Rightarrow> bool" where
  "has_commit r c = (c \<in> fst ` set (objects r))"

text \<open>
  \<^verbatim>\<open>commit.iter_parents()\<close> lists the revisions reachable from a commit and skips the
  first one, the commit itself (the library runs the revision walk with \<^verbatim>\<open>skip=1\<close>).
  \<open>rev_list\<close> is that walk: a work list of commits still to emit and the commits emitted
  so far, each commit emitted once, its parents queued behind it. The order in which the
  library emits the ancestors (by commit date) plays no role for the program, which only
  tests whether some emitted commit equals a given one.
\<close>

function rev_list :: "local_repo \<Rightarrow> sha list \<Rightarrow> sha list \<Rightarrow> sha list" where
  "rev_list r [] seen = []"
| "rev_list r (c # todo) seen =
     (if c \<in> set seen then rev_list r todo seen
      else c # rev_list r (todo @ parents_of r c) (c # seen))"
  by pat_completeness auto

termination rev_list
proof (relation "measures [\<lambda>(r, todo, seen). card (fst ` set (objects r) - set seen),
                            \<lambda>(r, todo, seen). length todo]", goal_cases)
  case 1
  show ?case by simp
next
  case (2 r c todo seen)
  then show ?case by simp
next
  case (3 r c todo seen)
  show ?case
  proof (cases "has_commit r c")
    case True
    with 3 have "fst ` set (objects r) - insert c (set seen) \<subset> fst ` set (objects r) - set seen"
      by (auto simp: has_commit_def)
    then have "card (fst ` set (objects r) - insert c (set seen))
             < card (fst ` set (objects r) - set seen)"
      by (intro psubset_card_mono) auto
    then show ?thesis by simp
  next
    case False
    then have "map_of (objects r) c = None"
      by (simp add: has_commit_def map_of_eq_None_iff)
    then have none: "parents_of r c = []"
      by (simp add: parents_of_def)
    from False have "fst ` set (objects r) - insert c (set seen) = fst ` set (objects r) - set seen"
      by (auto simp: has_commit_def)
    with none show ?thesis by simp
  qed
qed

definition iter_parents :: "local_repo \<Rightarrow> sha \<Rightarrow> sha list" where
  "iter_parents r c = drop 1 (rev_list r [c] [])"

text \<open>The loop of \<^verbatim>\<open>branch_is_merged\<close> over the ancestors: stop at the first match.\<close>

fun walk :: "sha list \<Rightarrow> sha \<Rightarrow> bool" where
  "walk [] branch_commit = False"
| "walk (c # cs) branch_commit = (if c = branch_commit then True else walk cs branch_commit)"

text \<open>
  \<^verbatim>\<open>branch_is_merged\<close>. The handler around the first lookup catches \<open>BadObject\<close> and
  nothing else; the second lookup, of the integration branch given on the command line,
  stands outside it.
\<close>

definition branch_is_merged :: "Branch \<Rightarrow> local_repo \<Rightarrow> string \<Rightarrow> error + bool" where
  "branch_is_merged branch local_repo integration_branch =
     (case repo_commit local_repo (commit branch) of
        Inl e \<Rightarrow> if e = BadObject then Inr False else Inl e
      | Inr branch_commit \<Rightarrow>
          (case repo_commit local_repo (JString integration_branch) of
             Inl e \<Rightarrow> Inl e
           | Inr head \<Rightarrow> Inr (walk (iter_parents local_repo head) branch_commit)))"

text \<open>
  The ancestors of a commit by generation, for stating what the walk finds: generation
  0 is the commit itself, generation \<open>n + 1\<close> the generation \<open>n\<close> of its parents.
\<close>

fun ancestor_at :: "local_repo \<Rightarrow> nat \<Rightarrow> sha \<Rightarrow> sha \<Rightarrow> bool" where
  "ancestor_at r 0 h c = (c = h)"
| "ancestor_at r (Suc n) h c = (\<exists>p \<in> set (parents_of r h). ancestor_at r n p c)"

section \<open>The hosting service\<close>

text \<open>
  The service, as the program sees it: \<^verbatim>\<open>requests.get(url).json()\<close> either raises
  (the request failed, or the body is not JSON) or returns the decoded document. The
  same address gives the same answer throughout a run.
\<close>

type_synonym api = "string \<Rightarrow> error + json"

text \<open>
  \<^verbatim>\<open>for x in doc\<close>: a list gives its elements, a dict its keys, a string its
  characters; nothing else can be iterated.
\<close>

fun py_iter :: "json \<Rightarrow> error + json list" where
  "py_iter (JArray xs) = Inr xs"
| "py_iter (JObject kvs) = Inr (map (\<lambda>kv. JString (fst kv)) kvs)"
| "py_iter (JString s) = Inr (map (\<lambda>ch. JString [ch]) s)"
| "py_iter _ = Inl TypeError"

text \<open>
  \<^verbatim>\<open>doc[key]\<close> with a string key: a dict gives the member or raises \<open>KeyError\<close>;
  a list, a string, a number, a boolean or null raises \<open>TypeError\<close>.
\<close>

fun py_getitem :: "json \<Rightarrow> string \<Rightarrow> error + json" where
  "py_getitem (JObject kvs) key =
     (case map_of kvs key of None \<Rightarrow> Inl KeyError | Some v \<Rightarrow> Inr v)"
| "py_getitem _ key = Inl TypeError"

text \<open>
  A generator that has run: the addresses it requested, the items it yielded, and the
  exception that ended it, if one did. The body of a generator runs when the consumer
  asks for the first item, which both callers do at once.
\<close>

record 'a generated =
  requested :: "string list"
  yielded :: "'a list"
  raised :: "error option"

fun yield_each :: "(json \<Rightarrow> error + 'a) \<Rightarrow> json list \<Rightarrow> 'a list \<times> error option" where
  "yield_each f [] = ([], None)"
| "yield_each f (j # js) =
     (case f j of
        Inl e \<Rightarrow> ([], Some e)
      | Inr x \<Rightarrow> (case yield_each f js of (xs, e) \<Rightarrow> (x # xs, e)))"

definition API_URL :: string where
  "API_URL = ''https://api.github.com''"

text \<open>
  \<^verbatim>\<open>Repository(repo['owner']['login'], repo['name'])\<close>: the members are read from left
  to right and stored as they are.
\<close>

definition fork_of_json :: "json \<Rightarrow> error + Repository" where
  "fork_of_json repo =
     (case py_getitem repo ''owner'' of
        Inl e \<Rightarrow> Inl e
      | Inr ow \<Rightarrow>
          (case py_getitem ow ''login'' of
             Inl e \<Rightarrow> Inl e
           | Inr login \<Rightarrow>
               (case py_getitem repo ''name'' of
                  Inl e \<Rightarrow> Inl e
                | Inr nm \<Rightarrow> Inr (Repository login nm))))"

text \<open>\<^verbatim>\<open>Branch(branch['name'], branch['commit']['sha'])\<close>\<close>

definition branch_of_json :: "json \<Rightarrow> error + Branch" where
  "branch_of_json branch =
     (case py_getitem branch ''name'' of
        Inl e \<Rightarrow> Inl e
      | Inr nm \<Rightarrow>
          (case py_getitem branch ''commit'' of
             Inl e \<Rightarrow> Inl e
           | Inr cm \<Rightarrow>
               (case py_getitem cm ''sha'' of
                  Inl e \<Rightarrow> Inl e
                | Inr sh \<Rightarrow> Inr (Branch nm sh))))"

text \<open>
  The common body of the two generators: one request, then one item per element of
  the answer.
\<close>

definition fetch_each :: "api \<Rightarrow> string \<Rightarrow> (json \<Rightarrow> error + 'a) \<Rightarrow> 'a generated" where
  "fetch_each api request f =
     (case api request of
        Inl e \<Rightarrow> \<lparr>requested = [request], yielded = [], raised = Some e\<rparr>
      | Inr doc \<Rightarrow>
          (case py_iter doc of
             Inl e \<Rightarrow> \<lparr>requested = [request], yielded = [], raised = Some e\<rparr>
           | Inr elems \<Rightarrow>
               (case yield_each f elems of
                  (xs, e) \<Rightarrow> \<lparr>requested = [request], yielded = xs, raised = e\<rparr>)))"

definition forks_request :: "formatter \<Rightarrow> Repository \<Rightarrow> string" where
  "forks_request fmt repository =
     API_URL @ ''/repos/'' @ fmt (owner repository) @ ''/'' @ fmt (Repository.name repository)
       @ ''/forks?per_page=100''"

definition branches_request :: "formatter \<Rightarrow> Repository \<Rightarrow> string" where
  "branches_request fmt repository =
     API_URL @ ''/repos/'' @ fmt (owner repository) @ ''/'' @ fmt (Repository.name repository)
       @ ''/branches?per_page=100''"

definition get_forks :: "api \<Rightarrow> formatter \<Rightarrow> Repository \<Rightarrow> Repository generated" where
  "get_forks api fmt repository = fetch_each api (forks_request fmt repository) fork_of_json"

definition get_branches :: "api \<Rightarrow> formatter \<Rightarrow> Repository \<Rightarrow> Branch generated" where
  "get_branches api fmt repository =
     fetch_each api (branches_request fmt repository) branch_of_json"

section \<open>The main program\<close>

text \<open>
  Membership in a Python set goes by hash and equality: a list or a dict cannot be
  hashed, which raises \<open>TypeError\<close>; \<^verbatim>\<open>True\<close> and \<^verbatim>\<open>False\<close> are equal to 1 and 0. \<open>py_key\<close>
  gives the member of the set a value stands for, if it can be hashed.
\<close>

fun py_key :: "json \<Rightarrow> json option" where
  "py_key (JArray xs) = None"
| "py_key (JObject kvs) = None"
| "py_key (JBool b) = Some (JNumber (if b then 1 else 0))"
| "py_key v = Some v"

text \<open>
  The condition of the list comprehension of \<open>main\<close>,
  \<^verbatim>\<open>(not branch_is_merged(...)) and (branch.commit not in all_unmerged)\<close>: the set is
  consulted only for a branch judged not merged.
\<close>

definition wanted :: "local_repo \<Rightarrow> string \<Rightarrow> json set \<Rightarrow> Branch \<Rightarrow> error + bool" where
  "wanted local_repo integration_branch all_unmerged branch =
     (case branch_is_merged branch local_repo integration_branch of
        Inl e \<Rightarrow> Inl e
      | Inr merged \<Rightarrow>
          if merged then Inr False
          else (case py_key (commit branch) of
                  None \<Rightarrow> Inl TypeError
                | Some k \<Rightarrow> Inr (k \<notin> all_unmerged)))"

text \<open>
  The list comprehension over the branches a generator yielded: an exception (of the
  condition, or the one that ended the generator) abandons the whole list.
\<close>

fun keep_unmerged ::
  "local_repo \<Rightarrow> string \<Rightarrow> json set \<Rightarrow> Branch list \<Rightarrow> error option \<Rightarrow> error + Branch list"
where
  "keep_unmerged local_repo integration_branch all_unmerged [] None = Inr []"
| "keep_unmerged local_repo integration_branch all_unmerged [] (Some e) = Inl e"
| "keep_unmerged local_repo integration_branch all_unmerged (branch # branches) ended =
     (case wanted local_repo integration_branch all_unmerged branch of
        Inl e \<Rightarrow> Inl e
      | Inr keep \<Rightarrow>
          (case keep_unmerged local_repo integration_branch all_unmerged branches ended of
             Inl e \<Rightarrow> Inl e
           | Inr rest \<Rightarrow> Inr (if keep then branch # rest else rest)))"

definition unmerged_branches ::
  "api \<Rightarrow> formatter \<Rightarrow> local_repo \<Rightarrow> string \<Rightarrow> json set \<Rightarrow> Repository
     \<Rightarrow> string list \<times> (error + Branch list)"
where
  "unmerged_branches api fmt local_repo integration_branch all_unmerged fork =
     (let g = get_branches api fmt fork
      in (requested g,
          keep_unmerged local_repo integration_branch all_unmerged (yielded g) (raised g)))"

text \<open>The lines one iteration prints: nothing for a fork with no unmerged branch.\<close>

definition report_lines :: "formatter \<Rightarrow> Repository \<Rightarrow> Branch list \<Rightarrow> string list" where
  "report_lines fmt fork unmerged =
     (if unmerged = [] then []
      else (fmt (owner fork) @ ''/'' @ fmt (Repository.name fork) @ '':'')
             # map (\<lambda>branch. ''  '' @ fmt (Branch.name branch)) unmerged)"

text \<open>
  \<^verbatim>\<open>all_unmerged.update(b.commit for b in unmerged_branches)\<close> adds the commit of every
  branch kept. Each of them has passed the membership test, so it can be hashed.
\<close>

definition commit_keys :: "Branch list \<Rightarrow> json set" where
  "commit_keys branches =
     set (concat (map (\<lambda>b. case py_key (commit b) of None \<Rightarrow> [] | Some k \<Rightarrow> [k]) branches))"

record state =
  all_unmerged :: "json set"
  requests :: "string list"
  printed :: "string list"

text \<open>
  The loop of \<open>main\<close> over the forks the generator yielded, then the exception that
  ended the generator, if any. The result is the final state and the exception that
  left \<open>main\<close>, if any.
\<close>

fun main_loop ::
  "api \<Rightarrow> formatter \<Rightarrow> local_repo \<Rightarrow> string \<Rightarrow> Repository list \<Rightarrow> error option \<Rightarrow> state
     \<Rightarrow> state \<times> error option"
where
  "main_loop api fmt local_repo integration_branch [] ended s = (s, ended)"
| "main_loop api fmt local_repo integration_branch (fork # forks) ended s =
     (case unmerged_branches api fmt local_repo integration_branch (all_unmerged s) fork of
        (reqs, Inl e) \<Rightarrow> (s\<lparr>requests := requests s @ reqs\<rparr>, Some e)
      | (reqs, Inr unmerged) \<Rightarrow>
          main_loop api fmt local_repo integration_branch forks ended
            (s\<lparr>all_unmerged := all_unmerged s \<union> commit_keys unmerged,
               requests := requests s @ reqs,
               printed := printed s @ report_lines fmt fork unmerged\<rparr>))"

text \<open>
  \<open>main\<close>. \<^verbatim>\<open>Repo('.')\<close> opens the repository of the working directory before the
  first request, or raises; \<open>opened\<close> is its outcome.
\<close>

definition main ::
  "api \<Rightarrow> formatter \<Rightarrow> error + local_repo \<Rightarrow> Repository \<Rightarrow> string \<Rightarrow> state \<times> error option"
where
  "main api fmt opened repository integration_branch =
     (case opened of
        Inl e \<Rightarrow> (\<lparr>all_unmerged = {}, requests = [], printed = []\<rparr>, Some e)
      | Inr local_repo \<Rightarrow>
          (let g = get_forks api fmt repository
           in main_loop api fmt local_repo integration_branch (yielded g) (raised g)
                \<lparr>all_unmerged = {}, requests = requested g, printed = []\<rparr>))"

section \<open>Notions used to state the properties\<close>

text \<open>The parent relation of the commit graph: \<open>(a, b)\<close> when \<open>b\<close> is a parent of \<open>a\<close>.\<close>

definition parent_rel :: "local_repo \<Rightarrow> (sha \<times> sha) set" where
  "parent_rel r = {(a, b). b \<in> set (parents_of r a)}"

text \<open>
  The keys the set holds after the branches of these groups were reported, a group
  being a fork with the branches reported for it.
\<close>

definition commits_of :: "(Repository \<times> Branch list) list \<Rightarrow> json set" where
  "commits_of groups = commit_keys (concat (map snd groups))"

text \<open>
  The branches reported for each fork processed, in order: what the list comprehension
  keeps for a fork, given the commits of the branches reported for the forks before it.
  A fork whose processing raises ends the list.
\<close>

fun reported ::
  "api \<Rightarrow> formatter \<Rightarrow> local_repo \<Rightarrow> string \<Rightarrow> (Repository \<times> Branch list) list
     \<Rightarrow> Repository list \<Rightarrow> (Repository \<times> Branch list) list"
where
  "reported api fmt local_repo integration_branch groups [] = groups"
| "reported api fmt local_repo integration_branch groups (fork # forks) =
     (case snd (unmerged_branches api fmt local_repo integration_branch (commits_of groups) fork) of
        Inl e \<Rightarrow> groups
      | Inr unmerged \<Rightarrow>
          reported api fmt local_repo integration_branch (groups @ [(fork, unmerged)]) forks)"

definition group_lines :: "formatter \<Rightarrow> (Repository \<times> Branch list) list \<Rightarrow> string list" where
  "group_lines fmt groups = concat (map (\<lambda>g. report_lines fmt (fst g) (snd g)) groups)"

text \<open>
  The branches reported for the fork at position \<open>j\<close> share no commit with the branches
  reported for the forks before it.
\<close>

definition fresh_at :: "(Repository \<times> Branch list) list \<Rightarrow> nat \<Rightarrow> bool" where
  "fresh_at groups j = (commit_keys (snd (groups ! j)) \<inter> commits_of (take j groups) = {})"

text \<open>
  The first exception in a sequence of outcomes, and the exception that ends the
  processing of a branch and of a fork, if any.
\<close>

fun first_error :: "error option list \<Rightarrow> error option" where
  "first_error [] = None"
| "first_error (None # xs) = first_error xs"
| "first_error (Some e # xs) = Some e"

definition check_failure :: "local_repo \<Rightarrow> string \<Rightarrow> Branch \<Rightarrow> error option" where
  "check_failure local_repo integration_branch branch =
     (case wanted local_repo integration_branch {} branch of
        Inl e \<Rightarrow> Some e
      | Inr keep \<Rightarrow> None)"

definition fork_failure ::
  "api \<Rightarrow> formatter \<Rightarrow> local_repo \<Rightarrow> string \<Rightarrow> Repository \<Rightarrow> error option"
where
  "fork_failure api fmt local_repo integration_branch fork =
     (let g = get_branches api fmt fork
      in first_error (map (check_failure local_repo integration_branch) (yielded g) @ [raised g]))"

text \<open>
  An element of an answer that has the members the program reads: a fork with
  \<open>owner.login\<close> and \<open>name\<close>, a branch with \<open>name\<close> and \<open>commit.sha\<close>.
\<close>

definition fork_element :: "json \<Rightarrow> Repository \<Rightarrow> bool" where
  "fork_element el repo =
     (\<exists>ow. py_getitem el ''owner'' = Inr ow
         \<and> py_getitem ow ''login'' = Inr (owner repo)
         \<and> py_getitem el ''name'' = Inr (Repository.name repo))"

definition branch_element :: "json \<Rightarrow> Branch \<Rightarrow> bool" where
  "branch_element el branch =
     (\<exists>cm. py_getitem el ''name'' = Inr (Branch.name branch)
         \<and> py_getitem el ''commit'' = Inr cm
         \<and> py_getitem cm ''sha'' = Inr (commit branch))"





text \<open>
  The lines a run is to print for a list of forks, given the set of commits already
  reported: for each fork the header and the indented names of its branches that are
  judged not merged and whose commit the set does not hold, nothing when there is no
  such branch; the commits of the branches listed join the set.
\<close>

fun expected_lines ::
  "api \<Rightarrow> formatter \<Rightarrow> local_repo \<Rightarrow> string \<Rightarrow> json set \<Rightarrow> Repository list \<Rightarrow> string list"
where
  "expected_lines api fmt r ib seen [] = []"
| "expected_lines api fmt r ib seen (fork # forks) =
     (let listed = filter (\<lambda>b. branch_is_merged b r ib = Inr False
                              \<and> (case py_key (commit b) of
                                    None \<Rightarrow> False
                                  | Some k \<Rightarrow> k \<notin> seen))
                     (yielded (get_branches api fmt fork))
      in (if listed = [] then []
          else (fmt (owner fork) @ ''/'' @ fmt (Repository.name fork) @ '':'')
                 # map (\<lambda>b. ''  '' @ fmt (Branch.name b)) listed)
         @ expected_lines api fmt r ib (seen \<union> commit_keys listed) forks)"

section \<open>Examples\<close>

text \<open>
  A small repository: the integration branch \<open>main\<close> at \<open>c2\<close>, with history
  \<open>c2 \<rightarrow> c1 \<rightarrow> c0\<close>, and the commits \<open>d2 \<rightarrow> d1\<close> on a line that diverged at \<open>c0\<close>.
  \<open>gone\<close> is the full hash of no object of the repository.
\<close>

definition c0 :: sha where "c0 = ''c0c0c0c0c0c0c0c0c0c0c0c0c0c0c0c0c0c0c0c0''"

definition c1 :: sha where "c1 = ''c1c1c1c1c1c1c1c1c1c1c1c1c1c1c1c1c1c1c1c1''"

definition c2 :: sha where "c2 = ''c2c2c2c2c2c2c2c2c2c2c2c2c2c2c2c2c2c2c2c2''"

definition d1 :: sha where "d1 = ''d1d1d1d1d1d1d1d1d1d1d1d1d1d1d1d1d1d1d1d1''"

definition d2 :: sha where "d2 = ''d2d2d2d2d2d2d2d2d2d2d2d2d2d2d2d2d2d2d2d2''"

definition gone :: sha where "gone = ''abc123abc123abc123abc123abc123abc123abcd''"

text \<open>
  What \<^verbatim>\<open>local_repo.commit\<close> answers in this repository. \<^verbatim>\<open>None\<close> and \<open>HEAD\<close> give
  the checked-out commit, \<open>c2\<close>, and so does the branch \<open>main\<close> under each of its
  names. Forty hexadecimal digits are a full hash: they give the commit stored under
  it, and raise \<open>ValueError\<close> when the repository stores no object under it (the
  object database reports it missing). Four hexadecimal digits or more that begin
  the hash of exactly one stored commit give that commit. Any other name, such as
  \<open>abc123\<close> or \<open>nope\<close>, raises \<open>BadName\<close>. Revision expressions (with \<open>^\<close>,
  \<open>~\<close>, \<open>@\<close> or \<open>:\<close>) are not covered: no example looks one up, and they fall
  under the last case, as do the values other than strings and \<^verbatim>\<open>None\<close>.
\<close>

definition hex_digits :: "string \<Rightarrow> bool" where
  "hex_digits x = list_all (\<lambda>ch. ch \<in> set ''0123456789abcdefABCDEF'') x"

definition lower_hex :: "char \<Rightarrow> char" where
  "lower_hex ch =
     (if ch = CHR ''A'' then CHR ''a'' else if ch = CHR ''B'' then CHR ''b''
      else if ch = CHR ''C'' then CHR ''c'' else if ch = CHR ''D'' then CHR ''d''
      else if ch = CHR ''E'' then CHR ''e'' else if ch = CHR ''F'' then CHR ''f''
      else ch)"

definition example_commit :: "json \<Rightarrow> error + sha" where
  "example_commit v =
     (case v of
        JNull \<Rightarrow> Inr c2
      | JString x \<Rightarrow>
          if hex_digits x \<and> length x = 40
          then (if map lower_hex x \<in> set [c2, c1, c0, d1, d2] then Inr (map lower_hex x)
                else Inl ValueError)
          else (case (if hex_digits x \<and> 4 \<le> length x
                      then filter (prefix (map lower_hex x)) [c2, c1, c0, d1, d2]
                      else []) of
                  [c] \<Rightarrow> Inr c
                | _ \<Rightarrow>
                    if x \<in> set [''HEAD'', ''main'', ''heads/main'', ''refs/heads/main'']
                    then Inr c2
                    else Inl BadName)
      | _ \<Rightarrow> Inl BadName)"

definition example_repo :: local_repo where
  "example_repo =
     \<lparr>objects = [(c2, [c1]), (c1, [c0]), (c0, []), (d1, [c0]), (d2, [d1])],
      repo_commit = example_commit\<rparr>"

text \<open>
  A formatter for the examples. It is Python's \<^verbatim>\<open>str\<close> on strings, which are the
  only values the examples format; what it gives for another value plays no role.
\<close>

definition example_str :: formatter where
  "example_str v = (case v of JString s \<Rightarrow> s | _ \<Rightarrow> [])"

definition upstream :: Repository where
  "upstream = Repository (JString ''upstream'') (JString ''repo'')"

definition alice :: Repository where
  "alice = Repository (JString ''alice'') (JString ''repo'')"

definition bob :: Repository where
  "bob = Repository (JString ''bob'') (JString ''repo'')"

text \<open>Elements as the service answers them, with members the program does not read.\<close>

definition fork_doc :: "string \<Rightarrow> string \<Rightarrow> json" where
  "fork_doc login nm =
     JObject [(''id'', JNumber 7), (''name'', JString nm),
              (''owner'', JObject [(''login'', JString login), (''id'', JNumber 3)])]"

definition branch_doc :: "string \<Rightarrow> string \<Rightarrow> json" where
  "branch_doc nm sha =
     JObject [(''name'', JString nm), (''commit'', JObject [(''sha'', JString sha)]),
              (''protected'', JBool False)]"

text \<open>
  One fork, \<open>alice/repo\<close>, with one branch \<open>feature\<close> at \<open>abc123\<close>, which the
  repository does not know.
\<close>

definition one_fork_api :: api where
  "one_fork_api url =
     (if url = ''https://api.github.com/repos/upstream/repo/forks?per_page=100''
      then Inr (JArray [fork_doc ''alice'' ''repo''])
      else if url = ''https://api.github.com/repos/alice/repo/branches?per_page=100''
      then Inr (JArray [branch_doc ''feature'' ''abc123''])
      else Inl ConnectionError)"

text \<open>
  Two forks, all of whose branches point at commits the repository stores.
  \<open>alice/repo\<close> has two branches at \<open>d1\<close>, on the divergent line, and one at the
  merged commit \<open>c0\<close>; \<open>bob/repo\<close> has a branch at \<open>d1\<close> too and one at \<open>d2\<close>.
\<close>

definition two_forks_api :: api where
  "two_forks_api url =
     (if url = ''https://api.github.com/repos/upstream/repo/forks?per_page=100''
      then Inr (JArray [fork_doc ''alice'' ''repo'', fork_doc ''bob'' ''repo''])
      else if url = ''https://api.github.com/repos/alice/repo/branches?per_page=100''
      then Inr (JArray [branch_doc ''feature'' d1, branch_doc ''old'' c0,
                        branch_doc ''also'' d1])
      else if url = ''https://api.github.com/repos/bob/repo/branches?per_page=100''
      then Inr (JArray [branch_doc ''feature'' d1, branch_doc ''fix'' d2])
      else Inl ConnectionError)"

text \<open>The same service, with the request for the branches of \<open>bob/repo\<close> failing.\<close>

definition bob_down_api :: api where
  "bob_down_api url =
     (if url = ''https://api.github.com/repos/bob/repo/branches?per_page=100''
      then Inl ConnectionError
      else two_forks_api url)"

text \<open>
  The same service again, with a second fork element that lacks the member \<open>owner\<close>.
\<close>

definition bad_element_api :: api where
  "bad_element_api url =
     (if url = ''https://api.github.com/repos/upstream/repo/forks?per_page=100''
      then Inr (JArray [fork_doc ''alice'' ''repo'', JObject [(''name'', JString ''repo'')]])
      else two_forks_api url)"

text \<open>The service refusing the first request with a message, as when its rate limit is used up.\<close>

definition limited_api :: api where
  "limited_api url =
     Inr (JObject [(''message'', JString ''API rate limit exceeded''),
                   (''documentation_url'', JString ''https://docs.github.com/rest'')])"

definition offline_api :: api where
  "offline_api url = Inl ConnectionError"

section \<open>What the ancestry walk finds\<close>

lemma walk_iff: "walk cs branch_commit = (branch_commit \<in> set cs)"
  by (induction cs) auto

lemma rev_list_fresh: "set (rev_list r todo seen) \<inter> set seen = {}"
  by (induction r todo seen rule: rev_list.induct) auto

lemma rev_list_distinct: "distinct (rev_list r todo seen)"
proof (induction r todo seen rule: rev_list.induct)
  case (1 r seen)
  show ?case by simp
next
  case (2 r c todo seen)
  have "c \<notin> set (rev_list r (todo @ parents_of r c) (c # seen))"
    using rev_list_fresh [of r "todo @ parents_of r c" "c # seen"] by auto
  with 2 show ?case by simp
qed

text \<open>
  A path that starts inside a set \<open>S\<close> and ends outside it passes through \<open>T\<close>, when
  every parent of a member of \<open>S\<close> is in \<open>S\<close> or in \<open>T\<close>.
\<close>

lemma escape_seen:
  assumes "(x, y) \<in> (parent_rel r)\<^sup>*" "x \<in> S" "y \<notin> S"
    and closed: "\<forall>a \<in> S. set (parents_of r a) \<subseteq> S \<union> T"
  shows "\<exists>t \<in> T. (t, y) \<in> (parent_rel r)\<^sup>*"
  using assms(1-3)
proof (induction rule: converse_rtrancl_induct)
  case base
  then show ?case by simp
next
  case (step a b)
  from step.hyps(1) have "b \<in> set (parents_of r a)" by (simp add: parent_rel_def)
  with closed step.prems(1) have "b \<in> S \<or> b \<in> T" by auto
  then show ?case
  proof
    assume "b \<in> S"
    then show ?thesis using step.IH step.prems(2) by simp
  next
    assume "b \<in> T"
    with step.hyps(2) show ?thesis by blast
  qed
qed

lemma reach_step:
  "(parent_rel r)\<^sup>* `` {c} = insert c ((parent_rel r)\<^sup>* `` set (parents_of r c))"
proof (intro set_eqI iffI)
  fix y assume "y \<in> (parent_rel r)\<^sup>* `` {c}"
  then have "(c, y) \<in> (parent_rel r)\<^sup>*" by simp
  then show "y \<in> insert c ((parent_rel r)\<^sup>* `` set (parents_of r c))"
    by (cases rule: converse_rtranclE) (auto simp: parent_rel_def)
next
  fix y assume "y \<in> insert c ((parent_rel r)\<^sup>* `` set (parents_of r c))"
  then show "y \<in> (parent_rel r)\<^sup>* `` {c}"
    by (auto simp: parent_rel_def intro: converse_rtrancl_into_rtrancl)
qed

text \<open>
  The walk emits exactly the commits reachable from the work list that were not emitted
  before, provided the parents of every emitted commit were emitted or are queued.
\<close>

lemma set_rev_list:
  "\<forall>a \<in> set seen. set (parents_of r a) \<subseteq> set seen \<union> set todo \<Longrightarrow>
   set (rev_list r todo seen) = (parent_rel r)\<^sup>* `` set todo - set seen"
proof (induction r todo seen rule: rev_list.induct)
  case (1 r seen)
  show ?case by simp
next
  case (2 r c todo seen)
  show ?case
  proof (cases "c \<in> set seen")
    case True
    with "2.prems" have closed: "\<forall>a \<in> set seen. set (parents_of r a) \<subseteq> set seen \<union> set todo"
      by auto
    have "(parent_rel r)\<^sup>* `` {c} - set seen \<subseteq> (parent_rel r)\<^sup>* `` set todo"
    proof
      fix y assume "y \<in> (parent_rel r)\<^sup>* `` {c} - set seen"
      then have "(c, y) \<in> (parent_rel r)\<^sup>*" "y \<notin> set seen" by auto
      from escape_seen [OF this(1) True this(2) closed]
      show "y \<in> (parent_rel r)\<^sup>* `` set todo" by auto
    qed
    then have "(parent_rel r)\<^sup>* `` set (c # todo) - set seen
             = (parent_rel r)\<^sup>* `` set todo - set seen"
      by auto
    with True "2.IH"(1) closed show ?thesis by simp
  next
    case False
    have closed: "\<forall>a \<in> set (c # seen).
        set (parents_of r a) \<subseteq> set (c # seen) \<union> set (todo @ parents_of r c)"
      using "2.prems" by auto
    have "set (rev_list r (c # todo) seen)
        = insert c (set (rev_list r (todo @ parents_of r c) (c # seen)))"
      using False by simp
    also have "\<dots> = insert c ((parent_rel r)\<^sup>* `` set (todo @ parents_of r c) - set (c # seen))"
      using "2.IH"(2) [OF False closed] by simp
    also have "\<dots> = (parent_rel r)\<^sup>* `` set (c # todo) - set seen"
      using False reach_step [of r c] by (auto simp: Image_Un)
    finally show ?thesis .
  qed
qed

lemma set_iter_parents:
  "set (iter_parents r h) = {c. c \<noteq> h \<and> (h, c) \<in> (parent_rel r)\<^sup>+}"
proof -
  have "rev_list r [h] [] = h # rev_list r (parents_of r h) [h]" by simp
  then have "set (iter_parents r h) = set (rev_list r (parents_of r h) [h])"
    by (simp add: iter_parents_def)
  also have "\<dots> = (parent_rel r)\<^sup>* `` set (parents_of r h) - set [h]"
    by (rule set_rev_list) auto
  also have "\<dots> = {c. c \<noteq> h \<and> (h, c) \<in> (parent_rel r)\<^sup>+}"
    by (auto simp: parent_rel_def trancl_unfold_left relcomp_unfold)
  finally show ?thesis .
qed

lemma ancestor_at_relpow: "ancestor_at r n h c = ((h, c) \<in> parent_rel r ^^ n)"
proof (induction n arbitrary: h)
  case 0
  show ?case by auto
next
  case (Suc n)
  have "ancestor_at r (Suc n) h c
      = (\<exists>p. (h, p) \<in> parent_rel r \<and> (p, c) \<in> parent_rel r ^^ n)"
    by (auto simp: Suc parent_rel_def)
  also have "\<dots> = ((h, c) \<in> parent_rel r O parent_rel r ^^ n)"
    by auto
  also have "\<dots> = ((h, c) \<in> parent_rel r ^^ Suc n)"
    by (simp add: relpow_commute)
  finally show ?case .
qed

lemma ancestor_trancl: "(\<exists>n>0. ancestor_at r n h c) = ((h, c) \<in> (parent_rel r)\<^sup>+)"
  by (simp add: ancestor_at_relpow trancl_power)

text \<open>
  The result of the check when both revisions resolve: the branch commit is found when
  it is reachable from the head through one parent link or more and is not the head,
  which the walk has skipped.
\<close>

lemma merged_when_resolved:
  assumes "repo_commit local_repo (commit branch) = Inr c"
    and "repo_commit local_repo (JString integration_branch) = Inr h"
  shows "branch_is_merged branch local_repo integration_branch
       = Inr (c \<noteq> h \<and> (\<exists>n>0. ancestor_at local_repo n h c))"
  using assms
  by (simp add: branch_is_merged_def walk_iff set_iter_parents ancestor_trancl)

lemma head_never_found:
  assumes "repo_commit local_repo (commit branch) = Inr h"
    and "repo_commit local_repo (JString integration_branch) = Inr h"
  shows "branch_is_merged branch local_repo integration_branch = Inr False"
  using merged_when_resolved [OF assms] by simp

text \<open>
  The first lookup decides alone when it raises: the handler turns \<open>BadObject\<close> into
  the answer false, any other exception leaves the function, and the integration
  branch is not looked up.
\<close>

lemma first_lookup_raises:
  assumes "repo_commit local_repo (commit branch) = Inl e"
  shows "branch_is_merged branch local_repo integration_branch
       = (if e = BadObject then Inr False else Inl e)"
  using assms by (simp add: branch_is_merged_def)

lemma second_lookup_raises:
  assumes "repo_commit local_repo (commit branch) = Inr c"
    and "repo_commit local_repo (JString integration_branch) = Inl e"
  shows "branch_is_merged branch local_repo integration_branch = Inl e"
  using assms by (simp add: branch_is_merged_def)

lemmas hash_defs = c0_def c1_def c2_def d1_def d2_def gone_def

lemmas lookup_defs =
  example_repo_def example_commit_def hex_digits_def lower_hex_def hash_defs

lemmas check_defs =
  branch_is_merged_def iter_parents_def parents_of_def lookup_defs

lemma example_repo_acyclic: "acyclic (parent_rel example_repo)"
proof -
  have "parent_rel example_repo \<subseteq> {(c2, c1), (c1, c0), (d1, c0), (d2, d1)}"
    by (auto simp: parent_rel_def parents_of_def example_repo_def split: if_splits)
  moreover have "acyclic {(c2, c1), (c1, c0), (d1, c0), (d2, d1)}"
    by (simp add: acyclic_insert rtrancl_insert hash_defs) (simp add: acyclic_def)
  ultimately show ?thesis by (rule acyclic_subset [rotated])
qed

text \<open>
  Claim C1: a branch whose commit is the head commit of the integration branch is
  reported as merged. The code does not do this: \<open>iter_parents\<close> starts behind the
  head, so the walk never meets the head itself (\<open>head_never_found\<close>). Here a branch
  at \<open>c2\<close>, the commit \<open>main\<close> points at, is judged not merged.
\<close>

theorem branch_at_head_judged_unmerged:
  "repo_commit example_repo (JString c2) = repo_commit example_repo (JString ''main'')
   \<and> branch_is_merged (Branch (JString ''feature'') (JString c2)) example_repo ''main''
     = Inr False"
  by (simp add: check_defs)

text \<open>
  Claim C2: for a branch whose commit exists locally, the check answers true exactly
  when that commit is an ancestor of the integration head, \<open>n\<close> generations back for
  some \<open>n > 0\<close>; a commit on a divergent line is no ancestor, so the answer is false.
  The commit graph is acyclic, as every history is.
\<close>

theorem merged_iff_ancestor:
  assumes "repo_commit local_repo (commit branch) = Inr c"
    and "repo_commit local_repo (JString integration_branch) = Inr h"
    and "acyclic (parent_rel local_repo)"
  shows "branch_is_merged branch local_repo integration_branch
       = Inr (\<exists>n>0. ancestor_at local_repo n h c)"
proof -
  have "c \<noteq> h" if "\<exists>n>0. ancestor_at local_repo n h c"
  proof
    assume "c = h"
    with that have "(h, h) \<in> (parent_rel local_repo)\<^sup>+" by (simp add: ancestor_trancl)
    with assms(3) show False by (simp add: acyclic_def)
  qed
  then show ?thesis
    using merged_when_resolved [OF assms(1,2)] by auto
qed

theorem merged_iff_ancestor_witness:
  "branch_is_merged (Branch (JString ''old'') (JString c0)) example_repo ''main'' = Inr True
   \<and> (\<exists>n>0. ancestor_at example_repo n c2 c0)
   \<and> branch_is_merged (Branch (JString ''side'') (JString d1)) example_repo ''main'' = Inr False
   \<and> \<not> (\<exists>n>0. ancestor_at example_repo n c2 d1)"
proof -
  have old_c: "repo_commit example_repo (commit (Branch (JString ''old'') (JString c0))) = Inr c0"
    and side_c: "repo_commit example_repo (commit (Branch (JString ''side'') (JString d1))) = Inr d1"
    and h: "repo_commit example_repo (JString ''main'') = Inr c2"
    by (simp_all add: lookup_defs)
  have old: "branch_is_merged (Branch (JString ''old'') (JString c0)) example_repo ''main''
      = Inr True"
    and side: "branch_is_merged (Branch (JString ''side'') (JString d1)) example_repo ''main''
      = Inr False"
    by (simp_all add: check_defs)
  from merged_iff_ancestor [OF old_c h example_repo_acyclic] old
  have "\<exists>n>0. ancestor_at example_repo n c2 c0" by simp
  moreover from merged_iff_ancestor [OF side_c h example_repo_acyclic] side
  have "\<not> (\<exists>n>0. ancestor_at example_repo n c2 d1)" by simp
  ultimately show ?thesis using old side by simp
qed

text \<open>
  Claim C3: for a branch whose commit hash is absent from the local repository the
  check answers false and raises nothing. The code does not do this. The handler
  catches \<open>BadObject\<close> (\<open>first_lookup_raises\<close>), but for an absent hash the lookup
  raises \<open>ValueError\<close> (a full hash of no stored object) or \<open>BadName\<close> (any other
  unknown name), and either leaves the function.
\<close>

theorem absent_commit_raises:
  "repo_commit example_repo (JString gone) = Inl ValueError
   \<and> branch_is_merged (Branch (JString ''feature'') (JString gone)) example_repo ''main''
     = Inl ValueError
   \<and> repo_commit example_repo (JString ''abc123'') = Inl BadName
   \<and> branch_is_merged (Branch (JString ''feature'') (JString ''abc123'')) example_repo ''main''
     = Inl BadName"
  by (simp add: check_defs)

text \<open>
  Claim C9: for a branch whose commit is absent the check answers false without
  raising even when the integration reference does not resolve either. The code
  looks the branch commit up first, as the claim says, and for an absent commit never
  reaches the integration reference; but the exception of that first lookup leaves the
  function, as for claim C3. With the unknown reference \<open>nope\<close> the check of a
  branch at the absent hash \<open>gone\<close> raises the \<open>ValueError\<close> of the first lookup.
\<close>

theorem absent_commit_raises_before_ref:
  "repo_commit example_repo (JString ''nope'') = Inl BadName
   \<and> branch_is_merged (Branch (JString ''feature'') (JString gone)) example_repo ''nope''
     = Inl ValueError
   \<and> branch_is_merged (Branch (JString ''feature'') (JString ''abc123'')) example_repo ''nope''
     = Inl BadName"
  by (simp add: check_defs)

section \<open>Reading the service\<close>

lemma yield_each_all2:
  "list_all2 (\<lambda>el x. f el = Inr x) elems xs \<Longrightarrow> yield_each f elems = (xs, None)"
  by (induction elems xs rule: list_all2_induct) auto


lemma fork_of_json_element: "fork_element el repo \<Longrightarrow> fork_of_json el = Inr repo"
  by (cases repo) (auto simp: fork_element_def fork_of_json_def)

lemma branch_of_json_element: "branch_element el branch \<Longrightarrow> branch_of_json el = Inr branch"
  by (cases branch) (auto simp: branch_element_def branch_of_json_def)

lemma fork_elements_parse:
  "list_all2 fork_element elems forks \<Longrightarrow> list_all2 (\<lambda>el x. fork_of_json el = Inr x) elems forks"
  by (auto elim!: list_all2_mono simp: fork_of_json_element)

lemma branch_elements_parse:
  "list_all2 branch_element elems branches \<Longrightarrow>
   list_all2 (\<lambda>el x. branch_of_json el = Inr x) elems branches"
  by (auto elim!: list_all2_mono simp: branch_of_json_element)

lemma requested_fetch_each: "requested (fetch_each api request f) = [request]"
  by (simp add: fetch_each_def split: sum.splits prod.splits)

lemma fetch_each_items:
  assumes "api request = Inr doc" "py_iter doc = Inr elems"
    and "list_all2 (\<lambda>el x. f el = Inr x) elems xs"
  shows "fetch_each api request f = \<lparr>requested = [request], yielded = xs, raised = None\<rparr>"
  using assms by (simp add: fetch_each_def yield_each_all2)

lemma fetch_each_array:
  assumes "api request = Inr (JArray elems)" "list_all2 (\<lambda>el x. f el = Inr x) elems xs"
  shows "fetch_each api request f = \<lparr>requested = [request], yielded = xs, raised = None\<rparr>"
  using assms by (simp add: fetch_each_items)





text \<open>Unfolding the program on concrete inputs.\<close>

lemmas run_defs =
  main_def get_forks_def get_branches_def fetch_each_def forks_request_def
  branches_request_def API_URL_def fork_of_json_def branch_of_json_def
  unmerged_branches_def wanted_def report_lines_def commit_keys_def
  commits_of_def group_lines_def Let_def check_defs

lemmas example_defs =
  one_fork_api_def two_forks_api_def bob_down_api_def bad_element_api_def limited_api_def
  offline_api_def
  fork_doc_def
  branch_doc_def example_str_def upstream_def alice_def bob_def

text \<open>
  Claim C7: \<open>get_forks\<close> sends exactly one request, to
  \<^verbatim>\<open>/repos/{owner}/{name}/forks?per_page=100\<close>, and yields one \<open>Repository\<close> of
  \<open>owner.login\<close> and \<open>name\<close> per element of the array answered, in order;
  \<open>get_branches\<close> sends exactly one request, to
  \<^verbatim>\<open>/repos/{owner}/{name}/branches?per_page=100\<close>, and yields one \<open>Branch\<close> of \<open>name\<close>
  and \<open>commit.sha\<close> per element. Whatever the answer, no second request follows, so
  no page behind the first is fetched.
\<close>

theorem one_request_one_record_per_element:
  "requested (get_forks api fmt repository)
     = [API_URL @ ''/repos/'' @ fmt (owner repository) @ ''/''
          @ fmt (Repository.name repository) @ ''/forks?per_page=100'']
   \<and> requested (get_branches api fmt repository)
     = [API_URL @ ''/repos/'' @ fmt (owner repository) @ ''/''
          @ fmt (Repository.name repository) @ ''/branches?per_page=100'']
   \<and> (api (forks_request fmt repository) = Inr (JArray fork_elems)
        \<and> list_all2 fork_element fork_elems forks
      \<longrightarrow> yielded (get_forks api fmt repository) = forks
          \<and> raised (get_forks api fmt repository) = None)
   \<and> (api (branches_request fmt repository) = Inr (JArray branch_elems)
        \<and> list_all2 branch_element branch_elems branches
      \<longrightarrow> yielded (get_branches api fmt repository) = branches
          \<and> raised (get_branches api fmt repository) = None)
   \<and> ((\<forall>s. fmt (JString s) = s)
      \<longrightarrow> forks_request fmt (Repository (JString ow) (JString nm))
            = ''https://api.github.com/repos/'' @ ow @ ''/'' @ nm @ ''/forks?per_page=100''
          \<and> branches_request fmt (Repository (JString ow) (JString nm))
            = ''https://api.github.com/repos/'' @ ow @ ''/'' @ nm @ ''/branches?per_page=100'')"
proof (intro conjI impI)
  show "requested (get_forks api fmt repository)
     = [API_URL @ ''/repos/'' @ fmt (owner repository) @ ''/''
          @ fmt (Repository.name repository) @ ''/forks?per_page=100'']"
    by (simp add: get_forks_def requested_fetch_each forks_request_def)
  show "requested (get_branches api fmt repository)
     = [API_URL @ ''/repos/'' @ fmt (owner repository) @ ''/''
          @ fmt (Repository.name repository) @ ''/branches?per_page=100'']"
    by (simp add: get_branches_def requested_fetch_each branches_request_def)
next
  assume a: "api (forks_request fmt repository) = Inr (JArray fork_elems)
        \<and> list_all2 fork_element fork_elems forks"
  then have "get_forks api fmt repository
      = \<lparr>requested = [forks_request fmt repository], yielded = forks, raised = None\<rparr>"
    by (simp add: get_forks_def fetch_each_array fork_elements_parse)
  then show "yielded (get_forks api fmt repository) = forks"
    and "raised (get_forks api fmt repository) = None" by simp_all
next
  assume a: "api (branches_request fmt repository) = Inr (JArray branch_elems)
        \<and> list_all2 branch_element branch_elems branches"
  then have "get_branches api fmt repository
      = \<lparr>requested = [branches_request fmt repository], yielded = branches, raised = None\<rparr>"
    by (simp add: get_branches_def fetch_each_array branch_elements_parse)
  then show "yielded (get_branches api fmt repository) = branches"
    and "raised (get_branches api fmt repository) = None" by simp_all
next
  assume "\<forall>s. fmt (JString s) = s"
  then show "forks_request fmt (Repository (JString ow) (JString nm))
            = ''https://api.github.com/repos/'' @ ow @ ''/'' @ nm @ ''/forks?per_page=100''"
    and "branches_request fmt (Repository (JString ow) (JString nm))
            = ''https://api.github.com/repos/'' @ ow @ ''/'' @ nm @ ''/branches?per_page=100''"
    by (simp_all add: forks_request_def branches_request_def API_URL_def)
qed

theorem one_request_one_record_per_element_witness:
  "get_forks one_fork_api example_str upstream
     = \<lparr>requested = [''https://api.github.com/repos/upstream/repo/forks?per_page=100''],
        yielded = [alice], raised = None\<rparr>
   \<and> get_branches one_fork_api example_str alice
     = \<lparr>requested = [''https://api.github.com/repos/alice/repo/branches?per_page=100''],
        yielded = [Branch (JString ''feature'') (JString ''abc123'')], raised = None\<rparr>"
proof -
  have f: "one_fork_api (forks_request example_str upstream)
             = Inr (JArray [fork_doc ''alice'' ''repo''])
           \<and> list_all2 fork_element [fork_doc ''alice'' ''repo''] [alice]"
    by (simp add: one_fork_api_def forks_request_def API_URL_def fork_element_def fork_doc_def
          example_str_def upstream_def alice_def)
  have b: "one_fork_api (branches_request example_str alice)
             = Inr (JArray [branch_doc ''feature'' ''abc123''])
           \<and> list_all2 branch_element [branch_doc ''feature'' ''abc123'']
                 [Branch (JString ''feature'') (JString ''abc123'')]"
    by (simp add: one_fork_api_def branches_request_def API_URL_def branch_element_def
          branch_doc_def example_str_def alice_def)
  from one_request_one_record_per_element
         [where api = one_fork_api and fmt = example_str and repository = upstream
            and fork_elems = "[fork_doc ''alice'' ''repo'']" and forks = "[alice]"] f
  have "requested (get_forks one_fork_api example_str upstream)
          = [''https://api.github.com/repos/upstream/repo/forks?per_page=100'']"
    and "yielded (get_forks one_fork_api example_str upstream) = [alice]"
    and "raised (get_forks one_fork_api example_str upstream) = None"
    by (simp_all add: API_URL_def example_str_def upstream_def)
  moreover from one_request_one_record_per_element
         [where api = one_fork_api and fmt = example_str and repository = alice
            and branch_elems = "[branch_doc ''feature'' ''abc123'']"
            and branches = "[Branch (JString ''feature'') (JString ''abc123'')]"] b
  have "requested (get_branches one_fork_api example_str alice)
          = [''https://api.github.com/repos/alice/repo/branches?per_page=100'']"
    and "yielded (get_branches one_fork_api example_str alice)
          = [Branch (JString ''feature'') (JString ''abc123'')]"
    and "raised (get_branches one_fork_api example_str alice) = None"
    by (simp_all add: API_URL_def example_str_def alice_def)
  ultimately show ?thesis
    by (cases "get_forks one_fork_api example_str upstream";
        cases "get_branches one_fork_api example_str alice") simp
qed

section \<open>The list comprehension\<close>

lemma commit_keys_iff: "k \<in> commit_keys bs = (\<exists>b \<in> set bs. py_key (commit b) = Some k)"
proof
  assume "k \<in> commit_keys bs"
  then show "\<exists>b \<in> set bs. py_key (commit b) = Some k"
    by (auto simp: commit_keys_def split: option.splits)
next
  assume "\<exists>b \<in> set bs. py_key (commit b) = Some k"
  then obtain b where "b \<in> set bs" "py_key (commit b) = Some k" by blast
  then show "k \<in> commit_keys bs"
    by (force simp: commit_keys_def)
qed

lemma commit_keys_append: "commit_keys (xs @ ys) = commit_keys xs \<union> commit_keys ys"
  by (auto simp: commit_keys_iff)

lemma branch_is_merged_commit:
  "commit b = commit b' \<Longrightarrow> branch_is_merged b r ib = branch_is_merged b' r ib"
  by (simp add: branch_is_merged_def)

text \<open>A branch is kept when it is judged not merged and the set does not hold its commit.\<close>

lemma wanted_iff:
  "(wanted r ib seen b = Inr True)
   = (branch_is_merged b r ib = Inr False \<and> (\<exists>k. py_key (commit b) = Some k \<and> k \<notin> seen))"
  by (auto simp: wanted_def split: sum.splits option.splits)

lemma keep_unmerged_filter:
  "keep_unmerged r ib seen bs ended = Inr kept \<Longrightarrow>
   kept = filter (\<lambda>b. wanted r ib seen b = Inr True) bs"
proof (induction bs arbitrary: kept)
  case Nil
  then show ?case by (cases ended) auto
next
  case (Cons b bs)
  then show ?case by (auto split: sum.splits if_splits)
qed

lemma unmerged_branches_filter:
  assumes "unmerged_branches api fmt r ib seen fork = (reqs, Inr unmerged)"
  shows "unmerged
       = filter (\<lambda>b. branch_is_merged b r ib = Inr False
                      \<and> (\<exists>k. py_key (commit b) = Some k \<and> k \<notin> seen))
           (yielded (get_branches api fmt fork))"
  using assms
  by (auto simp: unmerged_branches_def Let_def wanted_iff dest: keep_unmerged_filter)

text \<open>
  Claim C8: within one fork nothing is deduplicated. The set consulted by the
  comprehension is the one from before the fork, so when several branches of a fork
  point at the same unmerged commit that the set does not hold, every one of them is
  kept, and with it printed.
\<close>

theorem no_dedup_within_fork:
  assumes "unmerged_branches api fmt r ib seen fork = (reqs, Inr unmerged)"
    and "py_key c = Some k" "k \<notin> seen"
    and "branch_is_merged (Branch nm c) r ib = Inr False"
  shows "filter (\<lambda>b. commit b = c) unmerged
           = filter (\<lambda>b. commit b = c) (yielded (get_branches api fmt fork))
       \<and> subseq (map (\<lambda>b. ''  '' @ fmt (Branch.name b))
                   (filter (\<lambda>b. commit b = c) (yielded (get_branches api fmt fork))))
                (report_lines fmt fork unmerged)"
proof -
  have "branch_is_merged b r ib = Inr False" if "commit b = c" for b
    using that assms(4) branch_is_merged_commit [of b "Branch nm c" r ib] by simp
  with assms(2,3) have kept: "filter (\<lambda>b. commit b = c) unmerged
      = filter (\<lambda>b. commit b = c) (yielded (get_branches api fmt fork))"
    unfolding unmerged_branches_filter [OF assms(1)] filter_filter
    by (intro filter_cong) auto
  have "subseq (map (\<lambda>b. ''  '' @ fmt (Branch.name b)) (filter (\<lambda>b. commit b = c) unmerged))
          (map (\<lambda>b. ''  '' @ fmt (Branch.name b)) unmerged)"
    by (intro subseq_map subseq_filter_left)
  also have "subseq \<dots> (report_lines fmt fork unmerged)"
    by (auto simp: report_lines_def intro!: list_emb_Cons)
  finally show ?thesis using kept by simp
qed

theorem no_dedup_within_fork_witness:
  "snd (unmerged_branches two_forks_api example_str example_repo ''main'' {} alice)
     = Inr [Branch (JString ''feature'') (JString d1), Branch (JString ''also'') (JString d1)]
   \<and> filter (\<lambda>b. commit b = JString d1) (yielded (get_branches two_forks_api example_str alice))
     = [Branch (JString ''feature'') (JString d1), Branch (JString ''also'') (JString d1)]
   \<and> report_lines example_str alice
       [Branch (JString ''feature'') (JString d1), Branch (JString ''also'') (JString d1)]
     = [''alice/repo:'', ''  feature'', ''  also'']"
proof -
  let ?kept = "[Branch (JString ''feature'') (JString d1), Branch (JString ''also'') (JString d1)]"
  have u: "unmerged_branches two_forks_api example_str example_repo ''main'' {} alice
      = ([''https://api.github.com/repos/alice/repo/branches?per_page=100''], Inr ?kept)"
    by (simp add: run_defs example_defs)
  have m: "branch_is_merged (Branch (JString ''feature'') (JString d1)) example_repo ''main''
      = Inr False"
    by (simp add: check_defs)
  have k: "py_key (JString d1) = Some (JString d1)" by simp
  from no_dedup_within_fork [OF u k _ m]
  have a: "filter (\<lambda>b. commit b = JString d1) ?kept
      = filter (\<lambda>b. commit b = JString d1) (yielded (get_branches two_forks_api example_str alice))"
    by simp
  have b: "filter (\<lambda>b. commit b = JString d1) ?kept = ?kept"
    by simp
  from trans [OF a [symmetric] b] show ?thesis
    unfolding u by (simp add: report_lines_def example_str_def alice_def)
qed

section \<open>The exception that ends a run\<close>

lemma wanted_failure:
  "(case wanted r ib seen b of Inl e \<Rightarrow> Some e | Inr keep \<Rightarrow> None) = check_failure r ib b"
  by (simp add: check_failure_def wanted_def split: sum.splits option.splits)

lemma keep_unmerged_failure:
  "(case keep_unmerged r ib seen bs ended of Inl e \<Rightarrow> Some e | Inr kept \<Rightarrow> None)
   = first_error (map (check_failure r ib) bs @ [ended])"
proof (induction bs)
  case Nil
  show ?case by (cases ended) auto
next
  case (Cons b bs)
  show ?case
  proof (cases "wanted r ib seen b")
    case (Inl e)
    with wanted_failure [of r ib seen b] have "check_failure r ib b = Some e" by simp
    with Inl show ?thesis by simp
  next
    case (Inr keep)
    with wanted_failure [of r ib seen b] have "check_failure r ib b = None" by simp
    with Inr Cons [symmetric] show ?thesis by (simp split: sum.splits)
  qed
qed

lemma unmerged_branches_failure:
  "(case snd (unmerged_branches api fmt r ib seen fork) of Inl e \<Rightarrow> Some e | Inr kept \<Rightarrow> None)
   = fork_failure api fmt r ib fork"
  by (simp add: unmerged_branches_def fork_failure_def Let_def keep_unmerged_failure)


lemma main_loop_failure:
  "snd (main_loop api fmt r ib forks ended s)
   = first_error (map (fork_failure api fmt r ib) forks @ [ended])"
proof (induction forks arbitrary: s)
  case Nil
  show ?case by (cases ended) auto
next
  case (Cons fork forks)
  obtain reqs res where u: "unmerged_branches api fmt r ib (all_unmerged s) fork = (reqs, res)"
    by (cases "unmerged_branches api fmt r ib (all_unmerged s) fork")
  show ?case
  proof (cases res)
    case (Inl e)
    with u unmerged_branches_failure [of api fmt r ib "all_unmerged s" fork]
    have "fork_failure api fmt r ib fork = Some e" by simp
    with u Inl show ?thesis by simp
  next
    case (Inr unmerged)
    with u unmerged_branches_failure [of api fmt r ib "all_unmerged s" fork]
    have "fork_failure api fmt r ib fork = None" by simp
    with u Inr show ?thesis by (simp add: Cons)
  qed
qed

lemma first_error_None: "first_error xs = None \<Longrightarrow> \<forall>x \<in> set xs. x = None"
  by (induction xs rule: first_error.induct) auto




section \<open>The loop over the forks\<close>

lemma commits_of_snoc:
  "commits_of (groups @ [(fork, unmerged)]) = commits_of groups \<union> commit_keys unmerged"
  by (simp add: commits_of_def commit_keys_append)

lemma group_lines_snoc:
  "group_lines fmt (groups @ [(fork, unmerged)])
   = group_lines fmt groups @ report_lines fmt fork unmerged"
  by (simp add: group_lines_def)

lemma main_loop_reported:
  assumes "all_unmerged s = commits_of groups" "printed s = group_lines fmt groups"
  shows "all_unmerged (fst (main_loop api fmt r ib forks ended s))
           = commits_of (reported api fmt r ib groups forks)
       \<and> printed (fst (main_loop api fmt r ib forks ended s))
           = group_lines fmt (reported api fmt r ib groups forks)"
  using assms
proof (induction forks arbitrary: s groups)
  case Nil
  then show ?case by simp
next
  case (Cons fork forks)
  obtain reqs res
    where u: "unmerged_branches api fmt r ib (commits_of groups) fork = (reqs, res)"
    by (cases "unmerged_branches api fmt r ib (commits_of groups) fork")
  show ?case
  proof (cases res)
    case (Inl e)
    with u Cons.prems show ?thesis by simp
  next
    case (Inr unmerged)
    let ?s = "s\<lparr>all_unmerged := all_unmerged s \<union> commit_keys unmerged,
               requests := requests s @ reqs,
               printed := printed s @ report_lines fmt fork unmerged\<rparr>"
    have "all_unmerged ?s = commits_of (groups @ [(fork, unmerged)])"
      and "printed ?s = group_lines fmt (groups @ [(fork, unmerged)])"
      using Cons.prems by (simp_all add: commits_of_snoc group_lines_snoc)
    from Cons.IH [OF this] u Inr Cons.prems show ?thesis by simp
  qed
qed

lemma main_loop_append:
  "main_loop api fmt r ib (pre @ rest) ended s
   = (case main_loop api fmt r ib pre None s of
        (s', None) \<Rightarrow> main_loop api fmt r ib rest ended s'
      | (s', Some e) \<Rightarrow> (s', Some e))"
proof (induction pre arbitrary: s)
  case Nil
  show ?case by simp
next
  case (Cons fork pre)
  show ?case
    by (cases "unmerged_branches api fmt r ib (all_unmerged s) fork")
       (auto simp: Cons split: sum.splits)
qed

lemma reported_shape:
  "\<exists>new. reported api fmt r ib groups forks = groups @ new
        \<and> map fst new = take (length new) forks
        \<and> (\<forall>g \<in> set new. subseq (snd g) (yielded (get_branches api fmt (fst g)))
                           \<and> (\<forall>b \<in> set (snd g). branch_is_merged b r ib = Inr False
                                                 \<and> py_key (commit b) \<noteq> None))"
proof (induction forks arbitrary: groups)
  case Nil
  show ?case by simp
next
  case (Cons fork forks)
  obtain reqs res
    where u: "unmerged_branches api fmt r ib (commits_of groups) fork = (reqs, res)"
    by (cases "unmerged_branches api fmt r ib (commits_of groups) fork")
  show ?case
  proof (cases res)
    case (Inl e)
    with u show ?thesis by simp
  next
    case (Inr unmerged)
    from Cons.IH [of "groups @ [(fork, unmerged)]"] obtain new
      where new: "reported api fmt r ib (groups @ [(fork, unmerged)]) forks
                    = (groups @ [(fork, unmerged)]) @ new"
        "map fst new = take (length new) forks"
        "\<forall>g \<in> set new. subseq (snd g) (yielded (get_branches api fmt (fst g)))
                         \<and> (\<forall>b \<in> set (snd g). branch_is_merged b r ib = Inr False
                                               \<and> py_key (commit b) \<noteq> None)"
      by blast
    have "subseq unmerged (yielded (get_branches api fmt fork))"
      and "\<forall>b \<in> set unmerged. branch_is_merged b r ib = Inr False \<and> py_key (commit b) \<noteq> None"
      using unmerged_branches_filter [of api fmt r ib "commits_of groups" fork reqs unmerged]
        u Inr
      by auto
    with new u Inr show ?thesis
      by (intro exI [of _ "(fork, unmerged) # new"]) simp
  qed
qed

lemma reported_complete:
  "\<forall>f \<in> set forks. fork_failure api fmt r ib f = None \<Longrightarrow>
   map fst (reported api fmt r ib groups forks) = map fst groups @ forks"
proof (induction forks arbitrary: groups)
  case Nil
  show ?case by simp
next
  case (Cons fork forks)
  from Cons.prems unmerged_branches_failure [of api fmt r ib "commits_of groups" fork]
  obtain unmerged
    where "snd (unmerged_branches api fmt r ib (commits_of groups) fork) = Inr unmerged"
    by (cases "snd (unmerged_branches api fmt r ib (commits_of groups) fork)") auto
  with Cons show ?case by simp
qed

lemma reported_fresh:
  "\<forall>j < length groups. fresh_at groups j \<Longrightarrow>
   \<forall>j < length (reported api fmt r ib groups forks).
      fresh_at (reported api fmt r ib groups forks) j"
proof (induction forks arbitrary: groups)
  case Nil
  then show ?case by simp
next
  case (Cons fork forks)
  obtain reqs res
    where u: "unmerged_branches api fmt r ib (commits_of groups) fork = (reqs, res)"
    by (cases "unmerged_branches api fmt r ib (commits_of groups) fork")
  show ?case
  proof (cases res)
    case (Inl e)
    with u Cons.prems show ?thesis by simp
  next
    case (Inr unmerged)
    have new: "commit_keys unmerged \<inter> commits_of groups = {}"
      using unmerged_branches_filter [of api fmt r ib "commits_of groups" fork reqs unmerged]
        u Inr
      by (auto simp: commit_keys_iff)
    have "\<forall>j < length (groups @ [(fork, unmerged)]). fresh_at (groups @ [(fork, unmerged)]) j"
    proof (intro allI impI)
      fix j assume "j < length (groups @ [(fork, unmerged)])"
      then consider "j < length groups" | "j = length groups" by fastforce
      then show "fresh_at (groups @ [(fork, unmerged)]) j"
      proof cases
        case 1
        with Cons.prems show ?thesis by (simp add: fresh_at_def nth_append)
      next
        case 2
        with new show ?thesis by (simp add: fresh_at_def)
      qed
    qed
    from Cons.IH [OF this] u Inr show ?thesis by simp
  qed
qed

lemma commits_of_take:
  assumes "i < j" "j < length groups" "b \<in> set (snd (groups ! i))" "py_key (commit b) = Some k"
  shows "k \<in> commits_of (take j groups)"
proof -
  from assms(1,2) have "groups ! i \<in> set (take j groups)"
    by (metis in_set_conv_nth length_take min_less_iff_conj nth_take order_less_trans)
  with assms(3,4) show ?thesis by (force simp: commits_of_def commit_keys_iff)
qed

lemma main_printed_reported:
  "printed (fst (main api fmt (Inr r) repository ib))
   = group_lines fmt (reported api fmt r ib [] (yielded (get_forks api fmt repository)))"
  using main_loop_reported
          [of "\<lparr>all_unmerged = {}, requests = requested (get_forks api fmt repository),
                printed = []\<rparr>" "[]" fmt]
  by (simp add: main_def Let_def commits_of_def group_lines_def commit_keys_def)

lemma two_forks_groups:
  "reported two_forks_api example_str example_repo ''main'' []
     (yielded (get_forks two_forks_api example_str upstream))
   = [(alice, [Branch (JString ''feature'') (JString d1), Branch (JString ''also'') (JString d1)]),
      (bob, [Branch (JString ''fix'') (JString d2)])]"
  by (simp add: run_defs example_defs)

text \<open>
  Claim C4: the output of \<open>main\<close> is the report of the branches kept per fork, and a
  commit reported for an earlier fork is not reported again for a later one: a branch
  pointing at the commit of a branch reported for the fork at position \<open>i\<close> is not
  among the branches reported for the fork at a later position \<open>j\<close>.
\<close>

theorem duplicate_commit_suppressed:
  assumes "groups = reported api fmt r ib [] (yielded (get_forks api fmt repository))"
    and "i < j" "j < length groups"
    and "b1 \<in> set (snd (groups ! i))" "commit b2 = commit b1"
  shows "printed (fst (main api fmt (Inr r) repository ib)) = group_lines fmt groups
       \<and> b2 \<notin> set (snd (groups ! j))"
proof -
  from reported_shape [of api fmt r ib "[]" "yielded (get_forks api fmt repository)"] assms(1)
  have "\<forall>g \<in> set groups. \<forall>b \<in> set (snd g). py_key (commit b) \<noteq> None"
    by auto
  moreover from assms(2,3) have "groups ! i \<in> set groups" by simp
  ultimately obtain k where k: "py_key (commit b1) = Some k"
    using assms(4) by blast
  have "\<forall>j < length groups. fresh_at groups j"
    unfolding assms(1) by (rule reported_fresh) simp
  with assms(3) have "commit_keys (snd (groups ! j)) \<inter> commits_of (take j groups) = {}"
    by (simp add: fresh_at_def)
  moreover have "k \<in> commits_of (take j groups)"
    using assms(2-4) k by (rule commits_of_take)
  moreover have "k \<in> commit_keys (snd (groups ! j))" if "b2 \<in> set (snd (groups ! j))"
  proof -
    from assms(5) k have "py_key (commit b2) = Some k" by simp
    with that show ?thesis unfolding commit_keys_iff by blast
  qed
  ultimately have "b2 \<notin> set (snd (groups ! j))"
    by blast
  then show ?thesis by (simp add: assms(1) main_printed_reported)
qed

theorem duplicate_commit_suppressed_witness:
  "printed (fst (main two_forks_api example_str (Inr example_repo) upstream ''main''))
   = [''alice/repo:'', ''  feature'', ''  also'', ''bob/repo:'', ''  fix'']
   \<and> Branch (JString ''feature'') (JString d1)
       \<in> set (yielded (get_branches two_forks_api example_str bob))
   \<and> branch_is_merged (Branch (JString ''feature'') (JString d1)) example_repo ''main''
     = Inr False"
proof -
  let ?groups = "reported two_forks_api example_str example_repo ''main'' []
     (yielded (get_forks two_forks_api example_str upstream))"
  have "printed (fst (main two_forks_api example_str (Inr example_repo) upstream ''main''))
      = group_lines example_str ?groups
      \<and> Branch (JString ''feature'') (JString d1) \<notin> set (snd (?groups ! 1))"
    by (rule duplicate_commit_suppressed
          [where i = 0 and j = 1 and ?b1.0 = "Branch (JString ''feature'') (JString d1)"])
       (simp_all add: two_forks_groups)
  moreover have "Branch (JString ''feature'') (JString d1)
       \<in> set (yielded (get_branches two_forks_api example_str bob))"
    by (simp add: run_defs example_defs)
  moreover have "branch_is_merged (Branch (JString ''feature'') (JString d1)) example_repo ''main''
     = Inr False"
    by (simp add: check_defs)
  ultimately show ?thesis
    by (simp add: two_forks_groups group_lines_def report_lines_def example_str_def
          alice_def bob_def)
qed

text \<open>
  Claim C10: when the loop of \<open>main\<close> has processed the forks \<open>pre\<close> and starts the next
  iteration in state \<open>s\<close>, the set \<open>all_unmerged\<close> holds exactly the commits of the
  branches reported for the forks of \<open>pre\<close>, the lines printed so far are the report of
  those branches, each of them was judged not merged, and so was every branch whose
  commit is a string the set holds.
\<close>

theorem all_unmerged_at_iteration_start:
  assumes "yielded (get_forks api fmt repository) = pre @ rest"
    and "main_loop api fmt r ib pre None
           \<lparr>all_unmerged = {}, requests = requested (get_forks api fmt repository),
              printed = []\<rparr>
         = (s, None)"
  shows "main api fmt (Inr r) repository ib
           = main_loop api fmt r ib rest (raised (get_forks api fmt repository)) s
       \<and> map fst (reported api fmt r ib [] pre) = pre
       \<and> printed s = group_lines fmt (reported api fmt r ib [] pre)
       \<and> all_unmerged s = commits_of (reported api fmt r ib [] pre)
       \<and> (\<forall>g \<in> set (reported api fmt r ib [] pre).
             \<forall>b \<in> set (snd g). branch_is_merged b r ib = Inr False)
       \<and> (\<forall>b x. commit b = JString x \<and> JString x \<in> all_unmerged s
             \<longrightarrow> branch_is_merged b r ib = Inr False)"
proof -
  let ?s0 = "\<lparr>all_unmerged = {}, requests = requested (get_forks api fmt repository),
               printed = []\<rparr>"
  have run: "main api fmt (Inr r) repository ib
           = main_loop api fmt r ib rest (raised (get_forks api fmt repository)) s"
    using assms by (simp add: main_def Let_def main_loop_append)
  have "first_error (map (fork_failure api fmt r ib) pre @ [None]) = None"
    using main_loop_failure [of api fmt r ib pre None ?s0] assms(2) by simp
  then have "\<forall>f \<in> set pre. fork_failure api fmt r ib f = None"
    by (auto dest: first_error_None)
  then have forks: "map fst (reported api fmt r ib [] pre) = pre"
    using reported_complete [of pre api fmt r ib "[]"] by simp
  have inv: "all_unmerged s = commits_of (reported api fmt r ib [] pre)"
       "printed s = group_lines fmt (reported api fmt r ib [] pre)"
    using main_loop_reported [of ?s0 "[]" fmt api r ib pre None] assms(2)
    by (simp_all add: commits_of_def group_lines_def commit_keys_def)
  have judged: "\<forall>g \<in> set (reported api fmt r ib [] pre).
             \<forall>b \<in> set (snd g). branch_is_merged b r ib = Inr False"
    using reported_shape [of api fmt r ib "[]" pre] by auto
  have "branch_is_merged b r ib = Inr False"
    if "commit b = JString x" "JString x \<in> all_unmerged s" for b x
  proof -
    from that(2) inv(1) obtain g b' where g: "g \<in> set (reported api fmt r ib [] pre)"
      and b': "b' \<in> set (snd g)" "py_key (commit b') = Some (JString x)"
      by (auto simp: commits_of_def commit_keys_iff)
    from b'(2) have "commit b' = JString x"
      by (cases "commit b'") (auto split: if_splits)
    moreover from judged g b'(1) have "branch_is_merged b' r ib = Inr False" by auto
    ultimately show ?thesis
      using that(1) branch_is_merged_commit [of b b' r ib] by simp
  qed
  with run forks inv judged show ?thesis by simp
qed

theorem all_unmerged_at_iteration_start_witness:
  "all_unmerged
     (fst (main_loop two_forks_api example_str example_repo ''main'' [alice] None
        \<lparr>all_unmerged = {},
           requests = requested (get_forks two_forks_api example_str upstream),
           printed = []\<rparr>))
   = {JString d1}
   \<and> commits_of (reported two_forks_api example_str example_repo ''main'' [] [alice])
   = {JString d1}"
proof -
  let ?s = "\<lparr>all_unmerged = {JString d1},
       requests = [''https://api.github.com/repos/upstream/repo/forks?per_page=100'',
                   ''https://api.github.com/repos/alice/repo/branches?per_page=100''],
       printed = [''alice/repo:'', ''  feature'', ''  also'']\<rparr>"
  have forks: "yielded (get_forks two_forks_api example_str upstream) = [alice] @ [bob]"
    by (simp add: run_defs example_defs)
  have loop: "main_loop two_forks_api example_str example_repo ''main'' [alice] None
        \<lparr>all_unmerged = {},
           requests = requested (get_forks two_forks_api example_str upstream),
           printed = []\<rparr>
      = (?s, None)"
    by (simp add: run_defs example_defs)
  from all_unmerged_at_iteration_start [OF forks loop]
  have "all_unmerged ?s
      = commits_of (reported two_forks_api example_str example_repo ''main'' [] [alice])"
    by blast
  then have "commits_of (reported two_forks_api example_str example_repo ''main'' [] [alice])
      = {JString d1}"
    by (simp only: state.select_convs)
  then show ?thesis by (simp only: loop fst_conv state.select_convs)
qed

section \<open>Exceptions leave the program\<close>










section \<open>The output\<close>

text \<open>
  The output of a run that ends normally: fork after fork in the order the service
  answered them, the header \<open>owner/name:\<close> and the indented names of the branches
  that are judged not merged and whose commit was not reported for a fork before, in
  the order the service answered them; nothing for a fork with no such branch.
\<close>

lemma main_loop_output:
  "snd (main_loop api fmt r ib forks ended s) = None \<Longrightarrow>
   printed (fst (main_loop api fmt r ib forks ended s))
   = printed s @ expected_lines api fmt r ib (all_unmerged s) forks"
proof (induction forks arbitrary: s)
  case Nil
  show ?case by simp
next
  case (Cons fork forks)
  obtain reqs res where u: "unmerged_branches api fmt r ib (all_unmerged s) fork = (reqs, res)"
    by (cases "unmerged_branches api fmt r ib (all_unmerged s) fork")
  show ?case
  proof (cases res)
    case (Inl e)
    with u Cons.prems show ?thesis by simp
  next
    case (Inr unmerged)
    have "unmerged = filter (\<lambda>b. branch_is_merged b r ib = Inr False
                      \<and> (case py_key (commit b) of None \<Rightarrow> False | Some k \<Rightarrow> k \<notin> all_unmerged s))
                (yielded (get_branches api fmt fork))"
      unfolding unmerged_branches_filter [OF u [unfolded Inr]]
      by (intro filter_cong) (auto split: option.splits)
    with u Inr Cons.prems Cons.IH show ?thesis
      by (simp add: Let_def report_lines_def)
  qed
qed

lemma normal_run_output:
  "snd (main api fmt (Inr r) repository ib) = None \<Longrightarrow>
   printed (fst (main api fmt (Inr r) repository ib))
   = expected_lines api fmt r ib {} (yielded (get_forks api fmt repository))"
  using main_loop_output
          [of api fmt r ib "yielded (get_forks api fmt repository)"
              "raised (get_forks api fmt repository)"
              "\<lparr>all_unmerged = {}, requests = requested (get_forks api fmt repository),
                printed = []\<rparr>"]
  by (simp add: main_def Let_def)

text \<open>
  Claim C5: the output groups the names of the unmerged branches under the header of
  their fork, in the order of the service; for one fork \<open>alice/repo\<close> with one branch
  \<open>feature\<close> whose commit \<open>abc123\<close> is absent locally the output is the two lines
  \<open>alice/repo:\<close> and \<open>  feature\<close>. The code groups the output that way
  (\<open>normal_run_output\<close>), but not in the case the claim names: the lookup of the
  absent commit raises, as for claim C3, so the run ends with \<open>BadName\<close> after the
  two requests and has printed nothing.
\<close>

theorem absent_commit_run_prints_nothing:
  "main one_fork_api example_str (Inr example_repo) upstream ''main''
   = (\<lparr>all_unmerged = {},
        requests = [''https://api.github.com/repos/upstream/repo/forks?per_page=100'',
                    ''https://api.github.com/repos/alice/repo/branches?per_page=100''],
        printed = []\<rparr>,
      Some BadName)"
  by (simp add: run_defs example_defs)


end
